theory Spec2Isabelle
  imports Complex_Main "HOL-Library.Sublist" "HOL-Library.Multiset"
    "HOL-Library.Char_ord" "HOL-Library.List_Lexorder"
begin

section \<open>The file system seen by \<^verbatim>\<open>src/server/file_manager.py\<close>\<close>

text \<open>
  The module works on \<^verbatim>\<open>pathlib.Path\<close> objects. A path is modelled by its list of
  components, a name by a byte string. The file system is an association list from
  paths to nodes; its order stands for the order in which the operating system
  enumerates entries, which the module never fixes. A regular file carries its bytes,
  its modification time, and two flags that say whether \<^verbatim>\<open>stat()\<close> and
  \<^verbatim>\<open>open(..., 'rb')\<close> succeed on it, so that every per-file \<^verbatim>\<open>except\<close> of the
  source has a branch here. Symbolic links, \<^verbatim>\<open>..\<close> components and concurrent changes
  by other processes are outside the model.
\<close>

type_synonym path = "string list"

datatype node =
  File (content: string) (mtime: real) (stat_ok: bool) (read_ok: bool)
| Dir

type_synonym filesystem = "(path \<times> node) list"

datatype exn =
  FileNotFoundError
| NotADirectoryError
| FileExistsError
| IsADirectoryError
| PermissionError
| OverflowError
| IndexError

record stat_result =
  st_size :: nat
  st_mtime :: real

definition lookup :: "filesystem \<Rightarrow> path \<Rightarrow> node option" where
  "lookup fs p = map_of fs p"

text \<open>\<^verbatim>\<open>Path.exists()\<close>, \<^verbatim>\<open>Path.is_file()\<close>, \<^verbatim>\<open>Path.is_dir()\<close>.\<close>

definition path_exists :: "filesystem \<Rightarrow> path \<Rightarrow> bool" where
  "path_exists fs p = (case lookup fs p of None \<Rightarrow> False | Some n \<Rightarrow> True)"

definition is_file :: "filesystem \<Rightarrow> path \<Rightarrow> bool" where
  "is_file fs p = (case lookup fs p of Some (File c m s r) \<Rightarrow> True | Some Dir \<Rightarrow> False | None \<Rightarrow> False)"

definition is_dir :: "filesystem \<Rightarrow> path \<Rightarrow> bool" where
  "is_dir fs p = (case lookup fs p of Some Dir \<Rightarrow> True | Some (File c m s r) \<Rightarrow> False | None \<Rightarrow> False)"

text \<open>
  \<^verbatim>\<open>Path.stat()\<close>. The operations below read the size and the modification time of
  regular files only; for a directory the model returns zeros.
\<close>

definition stat :: "filesystem \<Rightarrow> path \<Rightarrow> exn + stat_result" where
  "stat fs p =
     (case lookup fs p of
        None \<Rightarrow> Inl FileNotFoundError
      | Some Dir \<Rightarrow> Inr \<lparr>st_size = 0, st_mtime = 0\<rparr>
      | Some (File c m s r) \<Rightarrow>
          if s then Inr \<lparr>st_size = length c, st_mtime = m\<rparr> else Inl PermissionError)"

text \<open>
  \<^verbatim>\<open>Path.rglob('*')\<close>: every entry strictly below the root, and nothing when the root
  is not a directory (pathlib's selector returns an empty iterator then).
\<close>

definition rglob :: "filesystem \<Rightarrow> path \<Rightarrow> path list" where
  "rglob fs d =
     (if is_dir fs d then filter (\<lambda>p. strict_prefix d p) (map fst fs) else [])"

section \<open>\<^verbatim>\<open>find_duplicate_files\<close>\<close>

text \<open>
  \<^verbatim>\<open>hashlib.md5\<close> is a library object: it enters as a record of its three operations.
\<close>

record 's hasher =
  h_init :: 's
  h_update :: "'s \<Rightarrow> string \<Rightarrow> 's"
  h_hexdigest :: "'s \<Rightarrow> string"

text \<open>\<^verbatim>\<open>iter(lambda: f.read(4096), b"")\<close>: blocks of 4096 bytes until the empty read.\<close>

function read_chunks :: "string \<Rightarrow> string list" where
  "read_chunks bs = (if bs = [] then [] else take 4096 bs # read_chunks (drop 4096 bs))"
  by pat_completeness auto
termination
  by (relation "measure length") auto

declare read_chunks.simps [simp del]

definition get_file_hash :: "'s hasher \<Rightarrow> filesystem \<Rightarrow> path \<Rightarrow> exn + string" where
  "get_file_hash H fs file_path =
     (case lookup fs file_path of
        None \<Rightarrow> Inl FileNotFoundError
      | Some Dir \<Rightarrow> Inl IsADirectoryError
      | Some (File c m s r) \<Rightarrow>
          if r then Inr (h_hexdigest H (foldl (h_update H) (h_init H) (read_chunks c)))
          else Inl PermissionError)"

text \<open>
  \<^verbatim>\<open>file_hashes[file_hash].append(file_path)\<close> on a \<^verbatim>\<open>defaultdict(list)\<close>: the
  dictionary keeps its keys in insertion order.
\<close>

type_synonym hash_table = "(string \<times> path list) list"

fun dict_append :: "hash_table \<Rightarrow> string \<Rightarrow> path \<Rightarrow> hash_table" where
  "dict_append [] k v = [(k, [v])]"
| "dict_append ((k', vs) # rest) k v =
     (if k' = k then (k', vs @ [v]) # rest else (k', vs) # dict_append rest k v)"

text \<open>
  The scanning loop (lines 252 to 261). The bare \<^verbatim>\<open>except: continue\<close> swallows a failing
  \<^verbatim>\<open>stat()\<close> before the count, and a failing hash after it.
\<close>

fun scan_files :: "'s hasher \<Rightarrow> filesystem \<Rightarrow> int \<Rightarrow> path list \<Rightarrow> hash_table \<times> nat \<Rightarrow> hash_table \<times> nat" where
  "scan_files H fs min_size [] acc = acc"
| "scan_files H fs min_size (file_path # rest) (file_hashes, total_files) =
     (if is_file fs file_path then
        (case stat fs file_path of
           Inl e \<Rightarrow> scan_files H fs min_size rest (file_hashes, total_files)
         | Inr st \<Rightarrow>
             if min_size \<le> int (st_size st) then
               (case get_file_hash H fs file_path of
                  Inl e \<Rightarrow> scan_files H fs min_size rest (file_hashes, total_files + 1)
                | Inr file_hash \<Rightarrow>
                    scan_files H fs min_size rest
                      (dict_append file_hashes file_hash file_path, total_files + 1))
             else scan_files H fs min_size rest (file_hashes, total_files))
      else scan_files H fs min_size rest (file_hashes, total_files))"

text \<open>
  The report. The source renders it as text; the model keeps what the text is made
  of: for every group its hash, the size of its first file and its files, and the
  number of files scanned.
\<close>

record dup_group =
  digest :: string
  group_size :: nat
  members :: "path list"

datatype dup_result =
  DirectoryMissing
| NoDuplicates nat
| Found "dup_group list" nat
| DupError exn

fun render_groups :: "filesystem \<Rightarrow> hash_table \<Rightarrow> exn + dup_group list" where
  "render_groups fs [] = Inr []"
| "render_groups fs ((hash_val, files) # rest) =
     (case files of
        [] \<Rightarrow> Inl IndexError
      | f # fs' \<Rightarrow>
          (case stat fs f of
             Inl e \<Rightarrow> Inl e
           | Inr st \<Rightarrow>
               (case render_groups fs rest of
                  Inl e \<Rightarrow> Inl e
                | Inr gs \<Rightarrow>
                    Inr (\<lparr>digest = hash_val, group_size = st_size st, members = files\<rparr> # gs))))"

text \<open>Everything after the existence check, for the sequence of paths the walk yields.\<close>

definition report_duplicates :: "'s hasher \<Rightarrow> filesystem \<Rightarrow> int \<Rightarrow> path list \<Rightarrow> dup_result" where
  "report_duplicates H fs min_size walk =
     (case scan_files H fs min_size walk ([], 0) of
        (file_hashes, total_files) \<Rightarrow>
          (let duplicates = filter (\<lambda>(hash_val, files). length files > 1) file_hashes
           in if duplicates = [] then NoDuplicates total_files
              else (case render_groups fs duplicates of
                      Inl e \<Rightarrow> DupError e
                    | Inr gs \<Rightarrow> Found gs total_files)))"

definition find_duplicate_files :: "'s hasher \<Rightarrow> filesystem \<Rightarrow> path \<Rightarrow> int \<Rightarrow> dup_result" where
  "find_duplicate_files H fs directory min_size =
     (if \<not> path_exists fs directory then DirectoryMissing
      else report_duplicates H fs min_size (rglob fs directory))"

subsection \<open>Vocabulary for the properties of the duplicate scan\<close>

text \<open>
  A path is scannable when the loop counts it: a regular file whose \<^verbatim>\<open>stat()\<close> succeeds
  with a size at or above the threshold. It hashes to \<open>h\<close> when, in addition, its digest
  is computed and is \<open>h\<close>.
\<close>

definition scannable :: "filesystem \<Rightarrow> int \<Rightarrow> path \<Rightarrow> bool" where
  "scannable fs min_size p =
     (is_file fs p \<and> (case stat fs p of Inl e \<Rightarrow> False | Inr st \<Rightarrow> min_size \<le> int (st_size st)))"

definition hashes_to :: "'s hasher \<Rightarrow> filesystem \<Rightarrow> int \<Rightarrow> string \<Rightarrow> path \<Rightarrow> bool" where
  "hashes_to H fs min_size h p = (scannable fs min_size p \<and> get_file_hash H fs p = Inr h)"

text \<open>
  What a result reports: its groups, its count of scanned files, and the grouping it
  induces, that is the groups as sets of paths under their digest.
\<close>

definition groups_of :: "dup_result \<Rightarrow> dup_group list" where
  "groups_of r = (case r of Found gs n \<Rightarrow> gs | _ \<Rightarrow> [])"



text \<open>The list a hash table holds under a key, empty when the key is absent.\<close>

definition entry :: "hash_table \<Rightarrow> string \<Rightarrow> path list" where
  "entry tab h = (case map_of tab h of None \<Rightarrow> [] | Some vs \<Rightarrow> vs)"

text \<open>
  A collision-free reference hasher for concrete runs: the digest of a byte string is
  the byte string itself.
\<close>

definition plain_hasher :: "string hasher" where
  "plain_hasher = \<lparr>h_init = [], h_update = (\<lambda>s b. s @ b), h_hexdigest = (\<lambda>s. s)\<rparr>"

text \<open>
  A directory \<^verbatim>\<open>d\<close> with \<^verbatim>\<open>a.txt\<close> and \<^verbatim>\<open>b.txt\<close> of content \<^verbatim>\<open>X\<close> and
  \<^verbatim>\<open>c.txt\<close> of content \<^verbatim>\<open>Y\<close>.
\<close>

definition abc_fs :: filesystem where
  "abc_fs =
     [([], Dir),
      ([''d''], Dir),
      ([''d'', ''a.txt''], File ''X'' 1 True True),
      ([''d'', ''c.txt''], File ''Y'' 3 True True),
      ([''d'', ''b.txt''], File ''X'' 2 True True)]"




section \<open>\<^verbatim>\<open>get_directory_statistics\<close>\<close>

text \<open>
  \<^verbatim>\<open>Path.name\<close>, \<^verbatim>\<open>Path.suffix\<close> and \<^verbatim>\<open>Path.stem\<close>. With \<open>i\<close> the index of the last dot
  of the name, pathlib splits the name there when \<open>0 < i < len(name) - 1\<close>, and takes the
  whole name for the stem otherwise (CPython up to 3.13). Below, \<open>ext\<close> is the text after the last dot, so
  \<open>i = length nm - length ext - 1\<close>.
\<close>

definition name :: "path \<Rightarrow> string" where
  "name p = (if p = [] then [] else last p)"

definition has_suffix :: "string \<Rightarrow> bool" where
  "has_suffix nm =
     (let ext = rev (takeWhile (\<lambda>c. c \<noteq> CHR ''.'') (rev nm))
      in CHR ''.'' \<in> set nm \<and> ext \<noteq> [] \<and> length ext + 1 < length nm)"

definition suffix_of :: "string \<Rightarrow> string" where
  "suffix_of nm =
     (if has_suffix nm then CHR ''.'' # rev (takeWhile (\<lambda>c. c \<noteq> CHR ''.'') (rev nm)) else [])"

definition stem_of :: "string \<Rightarrow> string" where
  "stem_of nm =
     (if has_suffix nm
      then take (length nm - length (takeWhile (\<lambda>c. c \<noteq> CHR ''.'') (rev nm)) - 1) nm
      else nm)"

definition path_suffix :: "path \<Rightarrow> string" where
  "path_suffix p = suffix_of (name p)"

definition stem :: "path \<Rightarrow> string" where
  "stem p = stem_of (name p)"

text \<open>
  The \<^verbatim>\<open>stats\<close> dictionary. \<^verbatim>\<open>float('inf')\<close> is the one value of the source that is
  not a finite number, so the second component of \<^verbatim>\<open>oldest_file\<close> has its own type.
  The first components are the \<^verbatim>\<open>str\<close> of a path; the empty string of the initial
  records is the empty list of components.
\<close>

datatype pyfloat = Finite real | Infinity

record stats =
  total_files :: nat
  total_dirs :: nat
  total_size :: nat
  file_types :: "(string \<times> nat) list"
  largest_file :: "path \<times> nat"
  oldest_file :: "path \<times> pyfloat"
  newest_file :: "path \<times> real"

definition initial_stats :: stats where
  "initial_stats =
     \<lparr>total_files = 0, total_dirs = 0, total_size = 0, file_types = [],
      largest_file = ([], 0), oldest_file = ([], Infinity), newest_file = ([], 0)\<rparr>"

text \<open>\<^verbatim>\<open>mtime < stats['oldest_file'][1]\<close> for a finite \<^verbatim>\<open>mtime\<close>.\<close>

fun float_less :: "real \<Rightarrow> pyfloat \<Rightarrow> bool" where
  "float_less x (Finite y) = (x < y)"
| "float_less x Infinity = True"

text \<open>\<^verbatim>\<open>stats['file_types'][key] += 1\<close> on a \<^verbatim>\<open>defaultdict(int)\<close>.\<close>

fun dict_incr :: "(string \<times> nat) list \<Rightarrow> string \<Rightarrow> (string \<times> nat) list" where
  "dict_incr [] k = [(k, 1)]"
| "dict_incr ((k', n) # rest) k =
     (if k' = k then (k', n + 1) # rest else (k', n) # dict_incr rest k)"

text \<open>
  The body of the loop for one regular file whose \<^verbatim>\<open>stat()\<close> returned \<open>sr\<close>, and the
  loop (lines 430 to 449). The two calls of \<^verbatim>\<open>item.stat()\<close> are not guarded: an exception
  leaves the loop and reaches the handler of the function.
\<close>

definition count_file :: "path \<Rightarrow> stat_result \<Rightarrow> stats \<Rightarrow> stats" where
  "count_file item sr st =
     (let st1 = st\<lparr>total_files := total_files st + 1\<rparr>;
          size = st_size sr;
          st2 = st1\<lparr>total_size := total_size st1 + size\<rparr>;
          st3 = st2\<lparr>file_types :=
                  dict_incr (file_types st2)
                    (if path_suffix item = [] then ''No extension'' else path_suffix item)\<rparr>;
          st4 = (if size > snd (largest_file st3) then st3\<lparr>largest_file := (item, size)\<rparr> else st3);
          mtime = st_mtime sr;
          st5 = (if float_less mtime (snd (oldest_file st4))
                 then st4\<lparr>oldest_file := (item, Finite mtime)\<rparr> else st4)
      in if mtime > snd (newest_file st5) then st5\<lparr>newest_file := (item, mtime)\<rparr> else st5)"

fun collect_stats :: "filesystem \<Rightarrow> path list \<Rightarrow> stats \<Rightarrow> exn + stats" where
  "collect_stats fs [] st = Inr st"
| "collect_stats fs (item # rest) st =
     (if is_file fs item then
        (case stat fs item of
           Inl e \<Rightarrow> Inl e
         | Inr sr \<Rightarrow> collect_stats fs rest (count_file item sr st))
      else if is_dir fs item then
        collect_stats fs rest (st\<lparr>total_dirs := total_dirs st + 1\<rparr>)
      else collect_stats fs rest st)"

text \<open>
  The report (lines 452 to 471), kept as the values its lines are formatted from: the
  three totals, the ten most frequent extensions, and the three records, each a file
  name with a size or a time. \<^verbatim>\<open>datetime.fromtimestamp\<close> raises \<^verbatim>\<open>OverflowError\<close>
  on infinity; on a finite time the model returns the time itself.
\<close>

record stats_report =
  shown_files :: nat
  shown_dirs :: nat
  shown_size :: nat
  shown_types :: "(string \<times> nat) list"
  shown_largest :: "string \<times> nat"
  shown_oldest :: "string \<times> real"
  shown_newest :: "string \<times> real"

datatype stats_result =
  StatsDirectoryMissing
| StatsReport stats_report
| StatsError exn

fun fromtimestamp :: "pyfloat \<Rightarrow> exn + real" where
  "fromtimestamp (Finite t) = Inr t"
| "fromtimestamp Infinity = Inl OverflowError"

definition top_types :: "(string \<times> nat) list \<Rightarrow> (string \<times> nat) list" where
  "top_types items = take 10 (sort_key (\<lambda>(ext, count). - int count) items)"

definition format_stats :: "stats \<Rightarrow> stats_result" where
  "format_stats st =
     (case fromtimestamp (snd (oldest_file st)) of
        Inl e \<Rightarrow> StatsError e
      | Inr oldest \<Rightarrow>
          StatsReport
            \<lparr>shown_files = total_files st,
             shown_dirs = total_dirs st,
             shown_size = total_size st,
             shown_types = top_types (file_types st),
             shown_largest = (name (fst (largest_file st)), snd (largest_file st)),
             shown_oldest = (name (fst (oldest_file st)), oldest),
             shown_newest = (name (fst (newest_file st)), snd (newest_file st))\<rparr>)"

definition get_directory_statistics :: "filesystem \<Rightarrow> path \<Rightarrow> stats_result" where
  "get_directory_statistics fs directory =
     (if \<not> path_exists fs directory then StatsDirectoryMissing
      else (case collect_stats fs (rglob fs directory) initial_stats of
              Inl e \<Rightarrow> StatsError e
            | Inr st \<Rightarrow> format_stats st))"


definition report_fs :: filesystem where
  "report_fs =
     [([], Dir),
      ([''d''], Dir),
      ([''d'', ''a.txt''], File ''abc'' 5 True True),
      ([''d'', ''sub''], Dir),
      ([''d'', ''sub'', ''Makefile''], File ''x'' 3 True True),
      ([''d'', ''sub'', ''b.txt''], File ''hello'' 9 True True)]"

section \<open>\<^verbatim>\<open>batch_rename_files\<close>\<close>

text \<open>
  \<^verbatim>\<open>str.split(sep)\<close> for a separator of one character, and \<^verbatim>\<open>str.strip()\<close> for the
  whitespace of ASCII. The comma-separated extension filter is parsed as in lines 374
  to 376: \<^verbatim>\<open>None\<close> and the empty string give no filter.
\<close>

fun split_on :: "char \<Rightarrow> string \<Rightarrow> string list" where
  "split_on sep [] = [[]]"
| "split_on sep (c # cs) =
     (if c = sep then [] # split_on sep cs
      else (case split_on sep cs of
              [] \<Rightarrow> [[c]]
            | w # ws \<Rightarrow> (c # w) # ws))"

definition is_space :: "char \<Rightarrow> bool" where
  "is_space c =
     (c \<in> {CHR '' '', CHR 0x09, CHR 0x0A, CHR 0x0B, CHR 0x0C, CHR 0x0D,
            CHR 0x1C, CHR 0x1D, CHR 0x1E, CHR 0x1F})"

definition strip :: "string \<Rightarrow> string" where
  "strip s = rev (dropWhile is_space (rev (dropWhile is_space s)))"

definition parse_extensions :: "string option \<Rightarrow> string list option" where
  "parse_extensions file_extensions =
     (case file_extensions of
        None \<Rightarrow> None
      | Some s \<Rightarrow> if s = [] then None else Some (map strip (split_on CHR '','' s)))"

text \<open>
  \<^verbatim>\<open>file_path.parent\<close> and \<^verbatim>\<open>parent / new_name\<close>. The new name comes out of
  \<^verbatim>\<open>re.sub\<close> and may hold separators: pathlib splits it into components, drops the
  empty ones and the single dots, and lets a leading separator replace the parent.
\<close>

definition parent :: "path \<Rightarrow> path" where
  "parent p = butlast p"

definition path_parts :: "string \<Rightarrow> string list" where
  "path_parts s = filter (\<lambda>w. w \<noteq> [] \<and> w \<noteq> ''.'') (split_on CHR ''/'' s)"

definition joinpath :: "path \<Rightarrow> string \<Rightarrow> path" where
  "joinpath p s =
     (case s of
        [] \<Rightarrow> p
      | c # cs \<Rightarrow> if c = CHR ''/'' then path_parts s else p @ path_parts s)"

text \<open>
  \<^verbatim>\<open>Path.iterdir()\<close>: the entries directly inside a directory, listed when the loop
  starts.
\<close>

definition iterdir :: "filesystem \<Rightarrow> path \<Rightarrow> exn + path list" where
  "iterdir fs d =
     (case lookup fs d of
        None \<Rightarrow> Inl FileNotFoundError
      | Some (File c m s r) \<Rightarrow> Inl NotADirectoryError
      | Some Dir \<Rightarrow> Inr (filter (\<lambda>p. p \<noteq> [] \<and> butlast p = d) (map fst fs)))"

text \<open>
  \<^verbatim>\<open>Path.rename(target)\<close>, which is \<^verbatim>\<open>os.rename\<close>, for a regular file: on POSIX an
  existing regular file at the target is replaced without notice. This is the branch
  the source guards against with \<^verbatim>\<open>new_path.exists()\<close>.
\<close>

definition rename :: "filesystem \<Rightarrow> path \<Rightarrow> path \<Rightarrow> exn + filesystem" where
  "rename fs src dst =
     (case lookup fs src of
        None \<Rightarrow> Inl FileNotFoundError
      | Some n \<Rightarrow>
          if dst = [] \<or> is_dir fs dst then Inl IsADirectoryError
          else if is_file fs (butlast dst) then Inl NotADirectoryError
          else if \<not> is_dir fs (butlast dst) then Inl FileNotFoundError
          else if dst = src then Inr fs
          else Inr (map (\<lambda>(q, x). if q = src then (dst, x) else (q, x))
                      (filter (\<lambda>(q, x). q \<noteq> dst) fs)))"

text \<open>
  The loop (lines 380 to 397). \<^verbatim>\<open>re.sub(pattern, replacement, _)\<close> is the parameter
  \<open>sub\<close>; it raises on a pattern or a replacement that does not compile. Nothing in the
  loop is guarded, so an exception ends the run with the renames done so far in place.
\<close>

fun rename_loop ::
  "(string \<Rightarrow> exn + string) \<Rightarrow> string list option \<Rightarrow> path list \<Rightarrow>
   filesystem \<times> (string \<times> string) list \<Rightarrow> filesystem \<times> (exn + (string \<times> string) list)" where
  "rename_loop sub extensions [] (fs, renamed_files) = (fs, Inr renamed_files)"
| "rename_loop sub extensions (file_path # rest) (fs, renamed_files) =
     (if is_file fs file_path then
        (if (case extensions of
               None \<Rightarrow> False
             | Some exts \<Rightarrow> exts \<noteq> [] \<and> path_suffix file_path \<notin> set exts)
         then rename_loop sub extensions rest (fs, renamed_files)
         else
           (case sub (name file_path) of
              Inl e \<Rightarrow> (fs, Inl e)
            | Inr new_name \<Rightarrow>
                if new_name \<noteq> name file_path then
                  (if path_exists fs (joinpath (parent file_path) new_name)
                   then rename_loop sub extensions rest (fs, renamed_files)
                   else
                     (case rename fs file_path (joinpath (parent file_path) new_name) of
                        Inl e \<Rightarrow> (fs, Inl e)
                      | Inr fs' \<Rightarrow>
                          rename_loop sub extensions rest
                            (fs', renamed_files @ [(name file_path, new_name)])))
                else rename_loop sub extensions rest (fs, renamed_files)))
      else rename_loop sub extensions rest (fs, renamed_files))"

datatype rename_result =
  RenameDirectoryMissing
| NoFilesMatched
| Renamed "(string \<times> string) list"
| RenameError exn

definition batch_rename_files ::
  "(string \<Rightarrow> exn + string) \<Rightarrow> filesystem \<Rightarrow> path \<Rightarrow> string option \<Rightarrow>
   filesystem \<times> rename_result" where
  "batch_rename_files sub fs directory file_extensions =
     (if \<not> path_exists fs directory then (fs, RenameDirectoryMissing)
      else
        (case iterdir fs directory of
           Inl e \<Rightarrow> (fs, RenameError e)
         | Inr listing \<Rightarrow>
             (case rename_loop sub (parse_extensions file_extensions) listing (fs, []) of
                (fs', Inl e) \<Rightarrow> (fs', RenameError e)
              | (fs', Inr renamed_files) \<Rightarrow>
                  (fs', if renamed_files = [] then NoFilesMatched else Renamed renamed_files))))"

text \<open>
  A directory where \<^verbatim>\<open>report_draft.txt\<close> cannot become \<^verbatim>\<open>report_final.txt\<close>, which
  exists, while \<^verbatim>\<open>notes_draft.txt\<close> can become \<^verbatim>\<open>notes_final.txt\<close>; and the values of
  \<^verbatim>\<open>re.sub('draft', 'final', _)\<close> on the names of that directory.
\<close>

definition drafts_fs :: filesystem where
  "drafts_fs =
     [([], Dir),
      ([''w''], Dir),
      ([''w'', ''report_draft.txt''], File ''new'' 2 True True),
      ([''w'', ''report_final.txt''], File ''old'' 1 True True),
      ([''w'', ''notes_draft.txt''], File ''n'' 3 True True)]"

definition draft_to_final :: "string \<Rightarrow> exn + string" where
  "draft_to_final nm =
     (if nm = ''report_draft.txt'' then Inr ''report_final.txt''
      else if nm = ''notes_draft.txt'' then Inr ''notes_final.txt''
      else Inr nm)"

section \<open>\<^verbatim>\<open>organize_files_by_type\<close>\<close>

text \<open>
  The table of categories (lines 301 to 310), searched in the order of the dictionary
  until the first category that lists the extension; \<^verbatim>\<open>Others\<close> when none does.
\<close>

definition categories :: "(string \<times> string list) list" where
  "categories =
     [(''Images'', [''.jpg'', ''.jpeg'', ''.png'', ''.gif'', ''.bmp'', ''.svg'', ''.webp'']),
      (''Documents'', [''.pdf'', ''.doc'', ''.docx'', ''.txt'', ''.md'', ''.odt'']),
      (''Spreadsheets'', [''.xls'', ''.xlsx'', ''.csv'', ''.ods'']),
      (''Videos'', [''.mp4'', ''.avi'', ''.mkv'', ''.mov'', ''.wmv'', ''.flv'']),
      (''Audio'', [''.mp3'', ''.wav'', ''.flac'', ''.aac'', ''.ogg'', ''.m4a'']),
      (''Archives'', [''.zip'', ''.rar'', ''.7z'', ''.tar'', ''.gz'']),
      (''Code'', [''.py'', ''.js'', ''.java'', ''.cpp'', ''.c'', ''.h'', ''.cs'', ''.html'', ''.css'']),
      (''Others'', [])]"

fun find_category :: "(string \<times> string list) list \<Rightarrow> string \<Rightarrow> string" where
  "find_category [] ext = ''Others''"
| "find_category ((cat, extensions) # rest) ext =
     (if ext \<in> set extensions then cat else find_category rest ext)"

text \<open>\<^verbatim>\<open>str.lower()\<close> on the letters of ASCII; other bytes are left as they are.\<close>

definition lower_char :: "char \<Rightarrow> char" where
  "lower_char c =
     (let n = (of_char c :: nat) in if 65 \<le> n \<and> n \<le> 90 then char_of (n + 32) else c)"

definition lower :: "string \<Rightarrow> string" where
  "lower s = map lower_char s"

text \<open>The decimal numeral of \<^verbatim>\<open>f"{counter}"\<close>, and the number a numeral stands for.\<close>

function str_nat :: "nat \<Rightarrow> string" where
  "str_nat n =
     (if n < 10 then [char_of (48 + n)] else str_nat (n div 10) @ [char_of (48 + n mod 10)])"
  by pat_completeness auto
termination
  by (relation "measure (\<lambda>n. n)") auto

declare str_nat.simps [simp del]

definition digits_value :: "string \<Rightarrow> nat" where
  "digits_value ds = foldl (\<lambda>a c. 10 * a + ((of_char c :: nat) - 48)) 0 ds"

text \<open>
  \<^verbatim>\<open>os.mkdir\<close>, then \<^verbatim>\<open>Path.mkdir(exist_ok=True)\<close> and
  \<^verbatim>\<open>Path.mkdir(parents=True, exist_ok=True)\<close> as pathlib builds them on it.
\<close>

definition os_mkdir :: "filesystem \<Rightarrow> path \<Rightarrow> exn + filesystem" where
  "os_mkdir fs p =
     (if path_exists fs p then Inl FileExistsError
      else if p = [] then Inl FileNotFoundError
      else (case lookup fs (butlast p) of
              None \<Rightarrow> Inl FileNotFoundError
            | Some (File c m s r) \<Rightarrow> Inl NotADirectoryError
            | Some Dir \<Rightarrow> Inr (fs @ [(p, Dir)])))"

definition mkdir_exist_ok :: "filesystem \<Rightarrow> path \<Rightarrow> exn + filesystem" where
  "mkdir_exist_ok fs p =
     (case os_mkdir fs p of
        Inr fs' \<Rightarrow> Inr fs'
      | Inl e \<Rightarrow>
          if e = FileNotFoundError then Inl e
          else if is_dir fs p then Inr fs
          else Inl e)"

function mkdir_parents :: "filesystem \<Rightarrow> path \<Rightarrow> exn + filesystem" where
  "mkdir_parents fs p =
     (case os_mkdir fs p of
        Inr fs' \<Rightarrow> Inr fs'
      | Inl e \<Rightarrow>
          if e = FileNotFoundError then
            (if p = [] then Inl e
             else (case mkdir_parents fs (butlast p) of
                     Inl e' \<Rightarrow> Inl e'
                   | Inr fs1 \<Rightarrow> mkdir_exist_ok fs1 p))
          else if is_dir fs p then Inr fs
          else Inl e)"
  by pat_completeness auto
termination
  by (relation "measure (\<lambda>(fs, p). length p)") auto

declare mkdir_parents.simps [simp del]

text \<open>
  \<^verbatim>\<open>shutil.copy2(src, dst)\<close>: the bytes and the modification time of the source are
  written to the destination, into it when it is a directory, over it when it is a
  regular file. The copy can be read by the process that wrote it.
\<close>

definition write_file :: "filesystem \<Rightarrow> path \<Rightarrow> node \<Rightarrow> filesystem" where
  "write_file fs p n =
     (if path_exists fs p then map (\<lambda>(q, x). if q = p then (q, n) else (q, x)) fs
      else fs @ [(p, n)])"

definition copy2 :: "filesystem \<Rightarrow> path \<Rightarrow> path \<Rightarrow> exn + filesystem" where
  "copy2 fs src dst =
     (case lookup fs src of
        None \<Rightarrow> Inl FileNotFoundError
      | Some Dir \<Rightarrow> Inl IsADirectoryError
      | Some (File c m s r) \<Rightarrow>
          if \<not> r then Inl PermissionError
          else
            (let target = (if is_dir fs dst then dst @ [name src] else dst)
             in if is_dir fs target then Inl IsADirectoryError
                else if target = [] \<or> \<not> is_dir fs (butlast target) then Inl FileNotFoundError
                else Inr (write_file fs target (File c m True True))))"


text \<open>
  The loop on name conflicts (lines 333 to 337), entered with the destination under the
  file's own name and with counter \<open>1\<close>. It ends: the candidates are pairwise different,
  since the decimal numeral determines its number, and finitely many paths exist.
\<close>

function free_destination ::
  "filesystem \<Rightarrow> path \<Rightarrow> string \<Rightarrow> string \<Rightarrow> path \<Rightarrow> nat \<Rightarrow> path" where
  "free_destination fs category_dir stm ext destination counter =
     (if path_exists fs destination
      then free_destination fs category_dir stm ext
             (category_dir @ [stm @ ''_'' @ str_nat counter @ ext]) (counter + 1)
      else destination)"
  by pat_completeness auto
termination
proof -
  have snoc: "digits_value (ds @ [c]) = 10 * digits_value ds + ((of_char c :: nat) - 48)" for ds c
    by (simp add: digits_value_def)
  have val: "digits_value (str_nat n) = n" for n
  proof (induction n rule: str_nat.induct)
    case (1 n)
    show ?case
    proof (cases "n < 10")
      case True
      then show ?thesis
        by (simp add: str_nat.simps [of n] digits_value_def)
    next
      case False
      have "n mod 10 < 10" by simp
      then have d: "(of_char (char_of (48 + n mod 10 :: nat)) :: nat) = 48 + n mod 10"
        by simp
      from False 1 have "digits_value (str_nat (n div 10)) = n div 10" by simp
      with False d show ?thesis
        by (simp add: str_nat.simps [of n] snoc)
    qed
  qed
  have keys: "path_exists fs p \<longleftrightarrow> p \<in> fst ` set fs" for fs p
  proof -
    have "path_exists fs p \<longleftrightarrow> map_of fs p \<noteq> None"
      by (simp add: path_exists_def lookup_def split: option.splits)
    then show ?thesis by (simp add: map_of_eq_None_iff)
  qed
  have finite_candidates:
    "finite {k. path_exists fs (cdir @ [stm @ ''_'' @ str_nat k @ ext])}" for fs cdir stm ext
  proof -
    let ?cand = "\<lambda>k. cdir @ [stm @ ''_'' @ str_nat k @ ext]"
    have "a = b" if "str_nat a = str_nat b" for a b
      using that val by metis
    then have "inj ?cand" by (intro injI) simp
    then have "finite (?cand -` (fst ` set fs))" by (intro finite_vimageI) simp_all
    moreover have "{k. path_exists fs (?cand k)} = ?cand -` (fst ` set fs)"
      by (auto simp: keys)
    ultimately show ?thesis by simp
  qed
  show ?thesis
  proof (relation "measure (\<lambda>(fs, cdir, stm, ext, dest, counter).
            2 * card {k. counter \<le> k \<and> path_exists fs (cdir @ [stm @ ''_'' @ str_nat k @ ext])} +
            (if path_exists fs dest then 1 else 0))")
    show "wf (measure (\<lambda>(fs, cdir, stm, ext, dest, counter).
            2 * card {k. counter \<le> k \<and> path_exists fs (cdir @ [stm @ ''_'' @ str_nat k @ ext])} +
            (if path_exists fs dest then 1 else 0)))"
      by simp
  next
    fix fs :: filesystem and cdir :: path and stm ext :: string and dest :: path and counter :: nat
    assume ex: "path_exists fs dest"
    let ?E = "\<lambda>k. path_exists fs (cdir @ [stm @ ''_'' @ str_nat k @ ext])"
    have fin: "finite {k. counter \<le> k \<and> ?E k}"
      by (rule finite_subset [OF _ finite_candidates [of fs cdir stm ext]]) auto
    have split: "{k. counter \<le> k \<and> ?E k} =
                   (if ?E counter then {counter} else {}) \<union> {k. counter + 1 \<le> k \<and> ?E k}"
      by (auto simp: Suc_le_eq le_less)
    have fin': "finite {k. counter + 1 \<le> k \<and> ?E k}"
      by (rule finite_subset [OF _ finite_candidates [of fs cdir stm ext]]) auto
    have "card {k. counter \<le> k \<and> ?E k} =
            (if ?E counter then 1 else 0) + card {k. counter + 1 \<le> k \<and> ?E k}"
    proof (cases "?E counter")
      case True
      then have "{k. counter \<le> k \<and> ?E k} = insert counter {k. counter + 1 \<le> k \<and> ?E k}"
        using split by auto
      moreover have "counter \<notin> {k. counter + 1 \<le> k \<and> ?E k}" by simp
      ultimately show ?thesis using True fin' by (simp del: One_nat_def)
    next
      case False
      then show ?thesis using split by simp
    qed
    then show "((fs, cdir, stm, ext, cdir @ [stm @ ''_'' @ str_nat counter @ ext], counter + 1),
                (fs, cdir, stm, ext, dest, counter))
               \<in> measure (\<lambda>(fs, cdir, stm, ext, dest, counter).
                    2 * card {k. counter \<le> k \<and> path_exists fs (cdir @ [stm @ ''_'' @ str_nat k @ ext])} +
                    (if path_exists fs dest then 1 else 0))"
      using ex by simp
  qed
qed

declare free_destination.simps [simp del]

text \<open>
  The body of the main loop for one path (lines 315 to 342): the file system after
  it, and either the exception that leaves the loop (from creating the category
  directory, which is not guarded) or what was placed, the category and the
  destination; nothing is placed for a path that is not a regular file, and for a file
  whose copy fails (the bare \<^verbatim>\<open>except: continue\<close>).
\<close>

definition place_file ::
  "path \<Rightarrow> filesystem \<Rightarrow> path \<Rightarrow> filesystem \<times> (exn + (string \<times> path) option)" where
  "place_file target_path fs file_path =
     (if is_file fs file_path then
        (let ext = lower (path_suffix file_path);
             category = find_category categories ext;
             category_dir = target_path @ [category]
         in case mkdir_exist_ok fs category_dir of
              Inl e \<Rightarrow> (fs, Inl e)
            | Inr fs1 \<Rightarrow>
                (let destination =
                       free_destination fs1 category_dir (stem file_path) ext
                         (category_dir @ [name file_path]) 1
                 in case copy2 fs1 file_path destination of
                      Inl e \<Rightarrow> (fs1, Inr None)
                    | Inr fs2 \<Rightarrow> (fs2, Inr (Some (category, destination)))))
      else (fs, Inr None))"

fun organize_loop ::
  "path \<Rightarrow> path list \<Rightarrow> filesystem \<times> (string \<times> nat) list \<Rightarrow>
   filesystem \<times> (exn + (string \<times> nat) list)" where
  "organize_loop target_path [] (fs, moved_files) = (fs, Inr moved_files)"
| "organize_loop target_path (file_path # rest) (fs, moved_files) =
     (case place_file target_path fs file_path of
        (fs', Inl e) \<Rightarrow> (fs', Inl e)
      | (fs', Inr None) \<Rightarrow> organize_loop target_path rest (fs', moved_files)
      | (fs', Inr (Some (category, destination))) \<Rightarrow>
          organize_loop target_path rest (fs', dict_incr moved_files category))"

datatype organize_result =
  SourceMissing
| Organized "(string \<times> nat) list"
| OrganizeError exn

text \<open>
  The function (lines 292 to 348). The walk is the list of the entries below the source
  once the target has been created; \<open>organize_loop\<close> itself takes any list of paths.
  The counts are reported sorted by category.
\<close>

definition organize_files_by_type ::
  "filesystem \<Rightarrow> path \<Rightarrow> path \<Rightarrow> filesystem \<times> organize_result" where
  "organize_files_by_type fs source_path target_path =
     (if \<not> path_exists fs source_path then (fs, SourceMissing)
      else
        (case mkdir_parents fs target_path of
           Inl e \<Rightarrow> (fs, OrganizeError e)
         | Inr fs1 \<Rightarrow>
             (case organize_loop target_path (rglob fs1 source_path) (fs1, []) of
                (fs2, Inl e) \<Rightarrow> (fs2, OrganizeError e)
              | (fs2, Inr moved_files) \<Rightarrow> (fs2, Organized (sort_key fst moved_files)))))"



definition category_of :: "path \<Rightarrow> string" where
  "category_of p = find_category categories (lower (path_suffix p))"


definition adds_only :: "path \<Rightarrow> filesystem \<Rightarrow> filesystem \<Rightarrow> bool" where
  "adds_only target_path fs fs' =
     (\<forall>q. lookup fs' q = lookup fs q \<or>
          (lookup fs q = None \<and>
           (lookup fs' q = Some Dir \<or>
            (is_file fs' q \<and> (\<exists>c nm. q = target_path @ [c, nm])))))"




text \<open>
  A source tree with three files \<^verbatim>\<open>A.TXT\<close> in three directories, the third of
  which cannot be read, and the file system after organizing it into \<^verbatim>\<open>t\<close>.
\<close>

definition texts_fs :: filesystem where
  "texts_fs =
     [([], Dir),
      ([''s''], Dir),
      ([''s'', ''x''], Dir),
      ([''s'', ''x'', ''A.TXT''], File ''one'' 1 True True),
      ([''s'', ''y''], Dir),
      ([''s'', ''y'', ''A.TXT''], File ''two'' 2 True True),
      ([''s'', ''z''], Dir),
      ([''s'', ''z'', ''A.TXT''], File ''three'' 3 True False)]"

definition texts_organized :: filesystem where
  "texts_organized =
     texts_fs @
     [([''t''], Dir),
      ([''t'', ''Documents''], Dir),
      ([''t'', ''Documents'', ''A.TXT''], File ''one'' 1 True True),
      ([''t'', ''Documents'', ''A_1.txt''], File ''two'' 2 True True)]"


section \<open>A root that is a regular file\<close>

text \<open>A file system whose path \<^verbatim>\<open>f\<close> is a regular file, given as the root of each operation.\<close>

definition file_root_fs :: filesystem where
  "file_root_fs = [([], Dir), ([''f''], File ''data'' 1 True True)]"

section \<open>Properties of \<^verbatim>\<open>find_duplicate_files\<close>\<close>

lemma scan_files_total:
  "snd (scan_files H fs m ps (tab, t)) = t + length (filter (scannable fs m) ps)"
  by (induction ps arbitrary: tab t) (auto simp: scannable_def split: sum.splits)

lemma map_of_dict_append:
  "map_of (dict_append tab k v) k' =
     (if k' = k then Some (entry tab k @ [v]) else map_of tab k')"
  by (induction tab k v rule: dict_append.induct) (auto simp: entry_def)

lemma keys_dict_append:
  "fst ` set (dict_append tab k v) = insert k (fst ` set tab)"
  by (induction tab k v rule: dict_append.induct) auto

lemma distinct_dict_append:
  "distinct (map fst tab) \<Longrightarrow> distinct (map fst (dict_append tab k v))"
  by (induction tab k v rule: dict_append.induct) (auto simp: keys_dict_append)

lemma scan_files_distinct:
  "distinct (map fst tab) \<Longrightarrow> distinct (map fst (fst (scan_files H fs m ps (tab, t))))"
  by (induction ps arbitrary: tab t) (auto simp: distinct_dict_append split: sum.splits)

lemma scan_files_Cons:
  "scan_files H fs m (p # ps) (tab, t) =
     (if scannable fs m p then
        (case get_file_hash H fs p of
           Inl e \<Rightarrow> scan_files H fs m ps (tab, t + 1)
         | Inr k \<Rightarrow> scan_files H fs m ps (dict_append tab k p, t + 1))
      else scan_files H fs m ps (tab, t))"
  by (auto simp: scannable_def split: sum.splits)

lemma scan_files_lookup:
  "map_of (fst (scan_files H fs m ps (tab, t))) h =
     (if filter (hashes_to H fs m h) ps = [] then map_of tab h
      else Some (entry tab h @ filter (hashes_to H fs m h) ps))"
proof (induction ps arbitrary: tab t)
  case Nil
  then show ?case by simp
next
  case (Cons p ps)
  have hp: "hashes_to H fs m h p \<longleftrightarrow> scannable fs m p \<and> get_file_hash H fs p = Inr h"
    by (simp add: hashes_to_def)
  show ?case
  proof (cases "scannable fs m p")
    case False
    then show ?thesis using Cons.IH [of tab t] hp
      by (simp only: scan_files_Cons) simp
  next
    case True
    show ?thesis
    proof (cases "get_file_hash H fs p")
      case (Inl e)
      then show ?thesis using True Cons.IH [of tab "t + 1"] hp
        by (simp only: scan_files_Cons) simp
    next
      case (Inr k)
      then show ?thesis using True Cons.IH [of "dict_append tab k p" "t + 1"] hp
        by (simp only: scan_files_Cons) (auto simp: map_of_dict_append entry_def)
    qed
  qed
qed

lemma scan_files_table:
  "(h, fl) \<in> set (fst (scan_files H fs m ps ([], 0))) \<longleftrightarrow>
     fl = filter (hashes_to H fs m h) ps \<and> fl \<noteq> []"
proof -
  let ?T = "fst (scan_files H fs m ps ([], 0))"
  have d: "distinct (map fst ?T)" by (rule scan_files_distinct) simp
  have "(h, fl) \<in> set ?T \<longleftrightarrow> map_of ?T h = Some fl"
    using d by simp
  then show ?thesis
    by (auto simp: scan_files_lookup entry_def)
qed

lemma hashes_to_stat:
  "hashes_to H fs m h p \<Longrightarrow> \<exists>st. stat fs p = Inr st \<and> m \<le> int (st_size st)"
  by (auto simp: hashes_to_def scannable_def split: sum.splits)

lemma render_groups_map:
  "render_groups fs tab = Inr gs \<Longrightarrow> map (\<lambda>g. (digest g, members g)) gs = tab"
  by (induction tab arbitrary: gs) (auto split: list.splits sum.splits)

lemma render_groups_ok:
  "(\<And>h fl. (h, fl) \<in> set tab \<Longrightarrow> fl \<noteq> [] \<and> (\<exists>st. stat fs (hd fl) = Inr st)) \<Longrightarrow>
     \<exists>gs. render_groups fs tab = Inr gs"
proof (induction tab)
  case Nil
  then show ?case by simp
next
  case (Cons a tab)
  obtain h fl where a: "a = (h, fl)" by (cases a)
  from Cons.prems [of h fl] a obtain f fs' st where fl: "fl = f # fs'" and st: "stat fs f = Inr st"
    by (cases fl) auto
  from Cons.IH Cons.prems obtain gs where "render_groups fs tab = Inr gs"
    by auto
  then show ?case using a fl st by simp
qed

lemma report_duplicates_groups:
  "\<exists>gs. report_duplicates H fs m ps =
          (if gs = [] then NoDuplicates (length (filter (scannable fs m) ps))
           else Found gs (length (filter (scannable fs m) ps))) \<and>
        map (\<lambda>g. (digest g, members g)) gs =
          filter (\<lambda>(h, fl). length fl > 1) (fst (scan_files H fs m ps ([], 0)))"
proof -
  let ?T = "fst (scan_files H fs m ps ([], 0))"
  let ?D = "filter (\<lambda>(h, fl). length fl > 1) ?T"
  have n: "snd (scan_files H fs m ps ([], 0)) = length (filter (scannable fs m) ps)"
    by (simp add: scan_files_total)
  have "\<exists>gs. render_groups fs ?D = Inr gs"
  proof (rule render_groups_ok)
    fix h fl assume "(h, fl) \<in> set ?D"
    then have mem: "(h, fl) \<in> set ?T" and len: "length fl > 1" by auto
    from mem have fl: "fl = filter (hashes_to H fs m h) ps" "fl \<noteq> []"
      using scan_files_table [of h fl H fs m ps] by blast+
    then have "hd fl \<in> set (filter (hashes_to H fs m h) ps)" by (metis hd_in_set)
    then have "hashes_to H fs m h (hd fl)" by simp
    then show "fl \<noteq> [] \<and> (\<exists>st. stat fs (hd fl) = Inr st)"
      using fl(2) hashes_to_stat by blast
  qed
  then obtain gs where gs: "render_groups fs ?D = Inr gs" ..
  then have m: "map (\<lambda>g. (digest g, members g)) gs = ?D" by (rule render_groups_map)
  have e: "gs = [] \<longleftrightarrow> ?D = []" using m by (metis map_is_Nil_conv)
  have "report_duplicates H fs m ps =
          (if gs = [] then NoDuplicates (length (filter (scannable fs m) ps))
           else Found gs (length (filter (scannable fs m) ps)))"
    using gs n e by (simp add: report_duplicates_def case_prod_unfold Let_def)
  with m show ?thesis by blast
qed

lemma groups_of_report:
  "(\<exists>g \<in> set (groups_of (report_duplicates H fs m ps)). digest g = h \<and> members g = fl) \<longleftrightarrow>
     fl = filter (hashes_to H fs m h) ps \<and> length fl > 1"
proof -
  obtain gs where r: "report_duplicates H fs m ps =
          (if gs = [] then NoDuplicates (length (filter (scannable fs m) ps))
           else Found gs (length (filter (scannable fs m) ps)))"
    and m: "map (\<lambda>g. (digest g, members g)) gs =
          filter (\<lambda>(h, fl). length fl > 1) (fst (scan_files H fs m ps ([], 0)))"
    using report_duplicates_groups by blast
  have g: "groups_of (report_duplicates H fs m ps) = gs"
    using r by (simp add: groups_of_def)
  have "(\<exists>g \<in> set gs. digest g = h \<and> members g = fl) \<longleftrightarrow>
          (h, fl) \<in> set (map (\<lambda>g. (digest g, members g)) gs)"
    by auto
  also have "\<dots> \<longleftrightarrow> (h, fl) \<in> set (fst (scan_files H fs m ps ([], 0))) \<and> length fl > 1"
    unfolding m by auto
  also have "\<dots> \<longleftrightarrow> fl = filter (hashes_to H fs m h) ps \<and> length fl > 1"
    by (auto simp: scan_files_table)
  finally show ?thesis using g by simp
qed













lemma read_chunks_short: "bs \<noteq> [] \<Longrightarrow> length bs \<le> 4096 \<Longrightarrow> read_chunks bs = [bs]"
  by (simp add: read_chunks.simps [of bs] read_chunks.simps [of "[]"])

lemma plain_digest_short:
  "bs \<noteq> [] \<Longrightarrow> length bs \<le> 4096 \<Longrightarrow>
     h_hexdigest plain_hasher (foldl (h_update plain_hasher) (h_init plain_hasher) (read_chunks bs)) = bs"
  by (simp add: read_chunks_short plain_hasher_def)





lemma found_is_report:
  "find_duplicate_files H fs d m = Found gs n \<Longrightarrow>
     report_duplicates H fs m (rglob fs d) = Found gs n"
  by (simp add: find_duplicate_files_def split: if_splits)

lemma distinct_rglob: "distinct (map fst fs) \<Longrightarrow> distinct (rglob fs d)"
  by (simp add: rglob_def)

text \<open>
  Claim C6. Every reported group has at least two members, and every member's digest is
  the digest of the group. When the file system lists no path twice, the members are
  pairwise distinct, so that the group holds at least two different files.
\<close>

theorem find_duplicates_groups_have_two_members:
  assumes found: "find_duplicate_files H fs directory min_size = Found gs n"
    and g: "g \<in> set gs"
  shows "2 \<le> length (members g) \<and>
         (\<forall>p \<in> set (members g). get_file_hash H fs p = Inr (digest g)) \<and>
         (distinct (map fst fs) \<longrightarrow> distinct (members g) \<and> 2 \<le> card (set (members g)))"
proof -
  let ?ps = "rglob fs directory"
  have r: "report_duplicates H fs min_size ?ps = Found gs n"
    using found by (rule found_is_report)
  then have "g \<in> set (groups_of (report_duplicates H fs min_size ?ps))"
    using g by (simp add: groups_of_def)
  then have m: "members g = filter (hashes_to H fs min_size (digest g)) ?ps"
    and len: "1 < length (members g)"
    using groups_of_report [of H fs min_size ?ps "digest g" "members g"] by blast+
  have h: "get_file_hash H fs p = Inr (digest g)" if "p \<in> set (members g)" for p
    using that m by (simp add: hashes_to_def)
  have d: "distinct (members g) \<and> 2 \<le> card (set (members g))" if "distinct (map fst fs)"
  proof -
    have "distinct (members g)" using that m by (simp add: distinct_rglob)
    then show ?thesis using len by (simp add: distinct_card)
  qed
  show ?thesis using len h d by auto
qed

theorem find_duplicates_groups_have_two_members_witness:
  "find_duplicate_files plain_hasher abc_fs [''d''] 0 =
     Found [\<lparr>digest = ''X'', group_size = 1,
              members = [[''d'', ''a.txt''], [''d'', ''b.txt'']]\<rparr>] 3 \<and>
   2 \<le> length [[''d'', ''a.txt''], [''d'', ''b.txt'']] \<and>
   get_file_hash plain_hasher abc_fs [''d'', ''a.txt''] = Inr ''X'' \<and>
   get_file_hash plain_hasher abc_fs [''d'', ''b.txt''] = Inr ''X''"
proof -
  have w: "rglob abc_fs [''d''] = [[''d'', ''a.txt''], [''d'', ''c.txt''], [''d'', ''b.txt'']]"
    by (simp add: rglob_def abc_fs_def is_dir_def lookup_def)
  have v: "find_duplicate_files plain_hasher abc_fs [''d''] 0 =
     Found [\<lparr>digest = ''X'', group_size = 1,
              members = [[''d'', ''a.txt''], [''d'', ''b.txt'']]\<rparr>] 3"
    unfolding find_duplicate_files_def report_duplicates_def w
    by (simp add: path_exists_def is_file_def stat_def get_file_hash_def plain_digest_short
          abc_fs_def lookup_def)
  from find_duplicates_groups_have_two_members [OF v, of
      "\<lparr>digest = ''X'', group_size = 1, members = [[''d'', ''a.txt''], [''d'', ''b.txt'']]\<rparr>"]
  show ?thesis using v by simp
qed





section \<open>Properties of \<^verbatim>\<open>get_directory_statistics\<close>\<close>

lemma sum_dict_incr: "sum_list (map snd (dict_incr tab k)) = Suc (sum_list (map snd tab))"
  by (induction tab k rule: dict_incr.induct) auto

lemma count_file_totals:
  "total_files (count_file item sr st) = Suc (total_files st) \<and>
   sum_list (map snd (file_types (count_file item sr st))) =
     Suc (sum_list (map snd (file_types st)))"
  by (simp add: count_file_def Let_def sum_dict_incr)

lemma collect_stats_histogram:
  "collect_stats fs walk st = Inr st' \<Longrightarrow>
   total_files st = sum_list (map snd (file_types st)) \<Longrightarrow>
   total_files st' = sum_list (map snd (file_types st'))"
proof (induction walk arbitrary: st)
  case Nil
  then show ?case by simp
next
  case (Cons item rest)
  show ?case
  proof (cases "is_file fs item")
    case True
    with Cons.prems(1) obtain sr where sr: "stat fs item = Inr sr"
      and rest: "collect_stats fs rest (count_file item sr st) = Inr st'"
      by (auto split: sum.splits)
    from rest show ?thesis
      by (rule Cons.IH) (simp add: count_file_totals Cons.prems(2))
  next
    case False
    with Cons.prems show ?thesis
      by (auto split: if_splits intro: Cons.IH)
  qed
qed

lemma sum_top_types:
  "length items \<le> 10 \<Longrightarrow> sum_list (map snd (top_types items)) = sum_list (map snd items)"
proof -
  assume "length items \<le> 10"
  then have "top_types items = sort_key (\<lambda>(ext, count). - int count) items"
    by (simp add: top_types_def)
  moreover have "mset (map snd (sort_key (\<lambda>(ext, count). - int count) items)) = mset (map snd items)"
    by simp
  ultimately show ?thesis by (metis sum_mset_sum_list)
qed

text \<open>
  Claim C9. Whenever the function returns a report, the number of files it shows is the
  sum of the counts over all buckets of the extension histogram \<^verbatim>\<open>stats['file_types']\<close>,
  in which a file without extension is counted under \<^verbatim>\<open>No extension\<close>. The report
  itself lists the ten largest buckets only; when the histogram has at most ten
  buckets, the shown counts add up to the shown total as well.
\<close>

theorem directory_statistics_total_is_histogram_sum:
  assumes rep: "get_directory_statistics fs directory = StatsReport r"
  shows "\<exists>st. collect_stats fs (rglob fs directory) initial_stats = Inr st \<and>
              shown_files r = total_files st \<and>
              total_files st = sum_list (map snd (file_types st)) \<and>
              shown_types r = top_types (file_types st) \<and>
              (length (file_types st) \<le> 10 \<longrightarrow>
                 shown_files r = sum_list (map snd (shown_types r)))"
proof -
  from rep obtain st where st: "collect_stats fs (rglob fs directory) initial_stats = Inr st"
    and f: "format_stats st = StatsReport r"
    by (auto simp: get_directory_statistics_def split: if_splits sum.splits)
  have h: "total_files st = sum_list (map snd (file_types st))"
    using st by (rule collect_stats_histogram) (simp add: initial_stats_def)
  from f have s: "shown_files r = total_files st" "shown_types r = top_types (file_types st)"
    by (auto simp: format_stats_def split: sum.splits)
  show ?thesis using st h s by (auto simp: sum_top_types)
qed


lemma rglob_report_fs:
  "rglob report_fs [''d''] =
     [[''d'', ''a.txt''], [''d'', ''sub''], [''d'', ''sub'', ''Makefile''], [''d'', ''sub'', ''b.txt'']]"
  by (simp add: rglob_def report_fs_def is_dir_def lookup_def)

lemma suffix_examples:
  "path_suffix [''d'', ''a.txt''] = ''.txt''"
  "path_suffix [''d'', ''sub'', ''b.txt''] = ''.txt''"
  "path_suffix [''d'', ''sub'', ''Makefile''] = []"
  by (simp_all add: path_suffix_def suffix_of_def has_suffix_def name_def)

lemma collect_report_fs:
  "collect_stats report_fs (rglob report_fs [''d'']) initial_stats =
     Inr \<lparr>total_files = 3, total_dirs = 1, total_size = 9,
          file_types = [(''.txt'', 2), (''No extension'', 1)],
          largest_file = ([''d'', ''sub'', ''b.txt''], 5),
          oldest_file = ([''d'', ''sub'', ''Makefile''], Finite 3),
          newest_file = ([''d'', ''sub'', ''b.txt''], 9)\<rparr>"
  unfolding rglob_report_fs
  by (simp add: is_file_def is_dir_def stat_def report_fs_def lookup_def count_file_def
        initial_stats_def suffix_examples)

theorem directory_statistics_total_is_histogram_sum_witness:
  "get_directory_statistics report_fs [''d''] =
     StatsReport
       \<lparr>shown_files = 3, shown_dirs = 1, shown_size = 9,
        shown_types = [(''.txt'', 2), (''No extension'', 1)],
        shown_largest = (''b.txt'', 5),
        shown_oldest = (''Makefile'', 3),
        shown_newest = (''b.txt'', 9)\<rparr> \<and>
   (3::nat) = sum_list (map snd [(''.txt'', 2::nat), (''No extension'', 1)])"
proof -
  have ex: "path_exists report_fs [''d'']"
    by (simp add: path_exists_def report_fs_def lookup_def)
  have v: "get_directory_statistics report_fs [''d''] =
     StatsReport
       \<lparr>shown_files = 3, shown_dirs = 1, shown_size = 9,
        shown_types = [(''.txt'', 2), (''No extension'', 1)],
        shown_largest = (''b.txt'', 5),
        shown_oldest = (''Makefile'', 3),
        shown_newest = (''b.txt'', 9)\<rparr>"
    unfolding get_directory_statistics_def collect_report_fs
    by (simp add: ex format_stats_def top_types_def name_def)
  from directory_statistics_total_is_histogram_sum [OF v]
  show ?thesis using v collect_report_fs by simp
qed




section \<open>Properties of \<^verbatim>\<open>batch_rename_files\<close>\<close>

lemma path_exists_keys: "path_exists fs p \<longleftrightarrow> p \<in> fst ` set fs"
proof -
  have "path_exists fs p \<longleftrightarrow> map_of fs p \<noteq> None"
    by (simp add: path_exists_def lookup_def split: option.splits)
  then show ?thesis by (simp add: map_of_eq_None_iff)
qed

lemma filter_absent_key: "p \<notin> fst ` set fs \<Longrightarrow> filter (\<lambda>(q, x). q \<noteq> p) fs = fs"
  by (induction fs) auto

lemma snd_rekey: "map snd (map (\<lambda>(q, x). if q = a then (b, x) else (q, x)) fs) = map snd fs"
  by (induction fs) auto

lemma rename_fresh:
  assumes "\<not> path_exists fs dst" and "rename fs src dst = Inr fs'"
  shows "map snd fs' = map snd fs"
proof -
  have "filter (\<lambda>(q, x). q \<noteq> dst) fs = fs"
    using assms(1) by (simp add: path_exists_keys filter_absent_key)
  then show ?thesis
    using assms(2) by (auto simp: rename_def snd_rekey split: option.splits if_splits)
qed

lemma rename_loop_keeps_nodes:
  "rename_loop sub exts ps (fs, acc) = (fs', res) \<Longrightarrow> map snd fs' = map snd fs"
proof (induction ps arbitrary: fs acc)
  case Nil
  then show ?case by simp
next
  case (Cons p ps)
  show ?case
  proof (cases "is_file fs p \<and> \<not> (case exts of None \<Rightarrow> False | Some es \<Rightarrow> es \<noteq> [] \<and> path_suffix p \<notin> set es)")
    case False
    then have "rename_loop sub exts (p # ps) (fs, acc) = rename_loop sub exts ps (fs, acc)"
      by auto
    with Cons show ?thesis by simp
  next
    case True
    show ?thesis
    proof (cases "sub (name p)")
      case (Inl e)
      with True Cons.prems show ?thesis by auto
    next
      case (Inr new_name)
      let ?np = "joinpath (parent p) new_name"
      show ?thesis
      proof (cases "new_name \<noteq> name p \<and> \<not> path_exists fs ?np")
        case False
        then have "rename_loop sub exts (p # ps) (fs, acc) = rename_loop sub exts ps (fs, acc)"
          using True Inr by auto
        with Cons show ?thesis by simp
      next
        case go: True
        show ?thesis
        proof (cases "rename fs p ?np")
          case (Inl e)
          with True Inr go Cons.prems show ?thesis by auto
        next
          case r: (Inr fs1)
          then have "rename_loop sub exts (p # ps) (fs, acc) =
                       rename_loop sub exts ps (fs1, acc @ [(name p, new_name)])"
            using True Inr go by auto
          with Cons.prems have "map snd fs' = map snd fs1"
            using Cons.IH by simp
          moreover have "map snd fs1 = map snd fs"
            using go r by (auto intro: rename_fresh)
          ultimately show ?thesis by simp
        qed
      qed
    qed
  qed
qed

lemma rename_loop_skips_existing:
  assumes "sub (name p) = Inr new_name"
    and "path_exists fs (joinpath (parent p) new_name)"
  shows "rename_loop sub exts (p # ps) (fs, acc) = rename_loop sub exts ps (fs, acc)"
  using assms by simp

text \<open>
  Claim C5. A file whose computed new path exists when the loop reaches it is passed
  over: the file system and the list of applied pairs are as before that file. Over a
  whole call no file is overwritten: the nodes of the file system after the call, read
  in order, are the nodes before it, also when the call ends with an error.
\<close>

theorem batch_rename_never_overwrites:
  assumes run: "batch_rename_files sub fs directory file_extensions = (fs', res)"
  shows "map snd fs' = map snd fs \<and>
         (\<forall>st acc file_path rest new_name exts.
            sub (name file_path) = Inr new_name \<and>
            path_exists st (joinpath (parent file_path) new_name) \<longrightarrow>
            rename_loop sub exts (file_path # rest) (st, acc) =
              rename_loop sub exts rest (st, acc))"
proof -
  have a: "map snd fs' = map snd fs"
  proof (cases "path_exists fs directory")
    case False
    with run show ?thesis by (simp add: batch_rename_files_def)
  next
    case True
    show ?thesis
    proof (cases "iterdir fs directory")
      case (Inl e)
      with True run show ?thesis by (simp add: batch_rename_files_def)
    next
      case (Inr listing)
      obtain fs1 r where l: "rename_loop sub (parse_extensions file_extensions) listing (fs, []) = (fs1, r)"
        by (cases "rename_loop sub (parse_extensions file_extensions) listing (fs, [])")
      with True Inr run have "fs' = fs1"
        by (auto simp: batch_rename_files_def split: sum.splits)
      with l show ?thesis by (auto dest: rename_loop_keeps_nodes)
    qed
  qed
  show ?thesis using a rename_loop_skips_existing by blast
qed


lemma iterdir_drafts:
  "iterdir drafts_fs [''w''] =
     Inr [[''w'', ''report_draft.txt''], [''w'', ''report_final.txt''], [''w'', ''notes_draft.txt'']]"
  by (simp add: iterdir_def drafts_fs_def lookup_def)

lemma joinpath_drafts:
  "joinpath [''w''] ''report_final.txt'' = [''w'', ''report_final.txt'']"
  "joinpath [''w''] ''notes_final.txt'' = [''w'', ''notes_final.txt'']"
  by (simp_all add: joinpath_def path_parts_def)

theorem batch_rename_never_overwrites_witness:
  "batch_rename_files draft_to_final drafts_fs [''w''] None =
     ([([], Dir),
       ([''w''], Dir),
       ([''w'', ''report_draft.txt''], File ''new'' 2 True True),
       ([''w'', ''report_final.txt''], File ''old'' 1 True True),
       ([''w'', ''notes_final.txt''], File ''n'' 3 True True)],
      Renamed [(''notes_draft.txt'', ''notes_final.txt'')]) \<and>
   path_exists drafts_fs (joinpath (parent [''w'', ''report_draft.txt'']) ''report_final.txt'') \<and>
   rename_loop draft_to_final None [[''w'', ''report_draft.txt'']] (drafts_fs, []) =
     (drafts_fs, Inr [])"
proof -
  have v: "batch_rename_files draft_to_final drafts_fs [''w''] None =
     ([([], Dir),
       ([''w''], Dir),
       ([''w'', ''report_draft.txt''], File ''new'' 2 True True),
       ([''w'', ''report_final.txt''], File ''old'' 1 True True),
       ([''w'', ''notes_final.txt''], File ''n'' 3 True True)],
      Renamed [(''notes_draft.txt'', ''notes_final.txt'')])"
    unfolding batch_rename_files_def iterdir_drafts
    by (simp add: parse_extensions_def path_exists_def is_file_def is_dir_def lookup_def
          drafts_fs_def draft_to_final_def name_def parent_def joinpath_drafts rename_def)
  have e: "path_exists drafts_fs (joinpath (parent [''w'', ''report_draft.txt'']) ''report_final.txt'')"
    by (simp add: parent_def joinpath_drafts path_exists_def lookup_def drafts_fs_def)
  have s: "draft_to_final (name [''w'', ''report_draft.txt'']) = Inr ''report_final.txt''"
    by (simp add: draft_to_final_def name_def)
  from batch_rename_never_overwrites [OF v]
  have "rename_loop draft_to_final None ([''w'', ''report_draft.txt''] # []) (drafts_fs, []) =
          rename_loop draft_to_final None [] (drafts_fs, [])"
    using s e by blast
  then show ?thesis using v e by simp
qed

section \<open>Properties of \<^verbatim>\<open>organize_files_by_type\<close>\<close>

lemma path_exists_lookup: "path_exists fs p \<longleftrightarrow> lookup fs p \<noteq> None"
  by (simp add: path_exists_def split: option.splits)

lemma lookup_append_fresh:
  "\<not> path_exists fs p \<Longrightarrow> lookup (fs @ [(p, n)]) q = (if q = p then Some n else lookup fs q)"
  by (auto simp: lookup_def path_exists_def map_add_def split: option.splits)

lemma adds_only_refl: "adds_only t fs fs"
  by (simp add: adds_only_def)

lemma adds_only_trans:
  assumes "adds_only t fs fs1" and "adds_only t fs1 fs2"
  shows "adds_only t fs fs2"
  unfolding adds_only_def
proof
  fix q
  from assms(1) have a: "lookup fs1 q = lookup fs q \<or>
      (lookup fs q = None \<and> (lookup fs1 q = Some Dir \<or> (is_file fs1 q \<and> (\<exists>c nm. q = t @ [c, nm]))))"
    by (simp add: adds_only_def)
  from assms(2) have b: "lookup fs2 q = lookup fs1 q \<or>
      (lookup fs1 q = None \<and> (lookup fs2 q = Some Dir \<or> (is_file fs2 q \<and> (\<exists>c nm. q = t @ [c, nm]))))"
    by (simp add: adds_only_def)
  have f: "is_file fs2 q = is_file fs1 q" if "lookup fs2 q = lookup fs1 q"
    using that by (simp add: is_file_def)
  from a b f show "lookup fs2 q = lookup fs q \<or>
      (lookup fs q = None \<and> (lookup fs2 q = Some Dir \<or> (is_file fs2 q \<and> (\<exists>c nm. q = t @ [c, nm]))))"
    by (cases "lookup fs2 q = lookup fs1 q") (auto simp: is_file_def)
qed

lemma adds_only_keeps: "adds_only t fs fs' \<Longrightarrow> lookup fs p = Some n \<Longrightarrow> lookup fs' p = Some n"
  by (auto simp: adds_only_def dest: spec [of _ p])


lemma adds_only_new_dir:
  "\<not> path_exists fs p \<Longrightarrow> adds_only t fs (fs @ [(p, Dir)])"
  by (simp add: adds_only_def lookup_append_fresh path_exists_lookup)

lemma os_mkdir_Inr:
  "os_mkdir fs p = Inr fs' \<Longrightarrow> fs' = fs @ [(p, Dir)] \<and> \<not> path_exists fs p"
  by (auto simp: os_mkdir_def split: if_splits option.splits node.splits)

lemma mkdir_exist_ok_Inr:
  assumes "mkdir_exist_ok fs p = Inr fs'"
  shows "adds_only t fs fs' \<and> is_dir fs' p"
proof (cases "os_mkdir fs p")
  case (Inl e)
  with assms have "fs' = fs" "is_dir fs p"
    by (auto simp: mkdir_exist_ok_def split: if_splits)
  then show ?thesis by (simp add: adds_only_refl)
next
  case (Inr fs1)
  with assms have "fs' = fs1" by (simp add: mkdir_exist_ok_def)
  with Inr have e: "fs' = fs @ [(p, Dir)]" "\<not> path_exists fs p"
    by (auto dest: os_mkdir_Inr)
  then show ?thesis
    by (simp add: adds_only_new_dir is_dir_def lookup_append_fresh)
qed

lemma mkdir_parents_Inr:
  "mkdir_parents fs p = Inr fs' \<Longrightarrow> adds_only t fs fs'"
proof (induction fs p arbitrary: fs' rule: mkdir_parents.induct)
  case (1 fs p)
  show ?case
  proof (cases "os_mkdir fs p")
    case (Inr fs1)
    with "1.prems" have "fs' = fs1" by (simp add: mkdir_parents.simps [of fs p])
    with Inr show ?thesis by (auto dest!: os_mkdir_Inr simp: adds_only_new_dir)
  next
    case (Inl e)
    show ?thesis
    proof (cases "e = FileNotFoundError")
      case False
      with Inl "1.prems" have "fs' = fs"
        by (auto simp: mkdir_parents.simps [of fs p] split: if_splits)
      then show ?thesis by (simp add: adds_only_refl)
    next
      case True
      with Inl "1.prems" obtain fs1 where ne: "p \<noteq> []"
        and par: "mkdir_parents fs (butlast p) = Inr fs1"
        and own: "mkdir_exist_ok fs1 p = Inr fs'"
        by (auto simp: mkdir_parents.simps [of fs p] split: if_splits sum.splits)
      have "adds_only t fs fs1"
        using Inl True ne par by (rule "1.IH")
      moreover have "adds_only t fs1 fs'"
        using own by (auto dest: mkdir_exist_ok_Inr)
      ultimately show ?thesis by (rule adds_only_trans)
    qed
  qed
qed

lemma free_destination_fresh:
  "\<not> path_exists fs (free_destination fs cdir stm ext dest c)"
proof (induction fs cdir stm ext dest c rule: free_destination.induct)
  case (1 fs cdir stm ext dest c)
  then show ?case
    by (cases "path_exists fs dest") (simp_all add: free_destination.simps [of fs cdir stm ext dest c])
qed

lemma free_destination_shape:
  "free_destination fs cdir stm ext dest c = d \<Longrightarrow>
     (d = dest \<and> \<not> path_exists fs dest) \<or>
     (path_exists fs dest \<and>
      (\<exists>k\<ge>c. d = cdir @ [stm @ ''_'' @ str_nat k @ ext] \<and>
              (\<forall>j. c \<le> j \<and> j < k \<longrightarrow> path_exists fs (cdir @ [stm @ ''_'' @ str_nat j @ ext]))))"
proof (induction fs cdir stm ext dest c arbitrary: d rule: free_destination.induct)
  case (1 fs cdir stm ext dest c)
  show ?case
  proof (cases "path_exists fs dest")
    case False
    with "1.prems" show ?thesis
      by (simp add: free_destination.simps [of fs cdir stm ext dest c])
  next
    case True
    let ?cand = "\<lambda>k. cdir @ [stm @ ''_'' @ str_nat k @ ext]"
    from True "1.prems" have r: "free_destination fs cdir stm ext (?cand c) (c + 1) = d"
      by (simp add: free_destination.simps [of fs cdir stm ext dest c])
    from "1.IH" [OF True r] consider
      (stop) "d = ?cand c" "\<not> path_exists fs (?cand c)"
      | (further) k where "path_exists fs (?cand c)" "c + 1 \<le> k" "d = ?cand k"
          "\<forall>j. c + 1 \<le> j \<and> j < k \<longrightarrow> path_exists fs (?cand j)"
      by blast
    then show ?thesis
    proof cases
      case stop
      have "\<forall>j. c \<le> j \<and> j < c \<longrightarrow> path_exists fs (?cand j)"
        by auto
      with stop(1) have "c \<le> c \<and> d = ?cand c \<and> (\<forall>j. c \<le> j \<and> j < c \<longrightarrow> path_exists fs (?cand j))"
        by blast
      with True show ?thesis by blast
    next
      case further
      have "\<forall>j. c \<le> j \<and> j < k \<longrightarrow> path_exists fs (?cand j)"
      proof (intro allI impI)
        fix j assume "c \<le> j \<and> j < k"
        then show "path_exists fs (?cand j)"
          using further(1,4) by (cases "j = c") auto
      qed
      moreover have "c \<le> k" using further(2) by simp
      ultimately show ?thesis using True further(3) by blast
    qed
  qed
qed

lemma copy2_fresh:
  assumes "copy2 fs src dst = Inr fs'" and "\<not> path_exists fs dst"
  shows "\<exists>c m s. lookup fs src = Some (File c m s True) \<and> fs' = fs @ [(dst, File c m True True)]"
proof -
  have nd: "\<not> is_dir fs dst"
    using assms(2) by (auto simp: is_dir_def path_exists_def split: option.splits)
  from assms(1) obtain c m s where src: "lookup fs src = Some (File c m s True)"
    by (auto simp: copy2_def split: option.splits node.splits if_splits)
  with assms nd have "fs' = write_file fs dst (File c m True True)"
    by (auto simp: copy2_def Let_def split: if_splits)
  with assms(2) src show ?thesis by (simp add: write_file_def)
qed


lemma adds_only_new_file:
  "\<not> path_exists fs (t @ [c, nm]) \<Longrightarrow> adds_only t fs (fs @ [(t @ [c, nm], File b m s r)])"
  by (auto simp: adds_only_def lookup_append_fresh path_exists_lookup is_file_def)

text \<open>What one pass of the loop body does.\<close>

lemma place_file_skip:
  "place_file t fs p = (fs', Inr None) \<Longrightarrow> adds_only t fs fs'"
  by (auto simp: place_file_def Let_def adds_only_refl split: if_splits sum.splits
        dest: mkdir_exist_ok_Inr)

lemma place_file_error:
  "place_file t fs p = (fs', Inl e) \<Longrightarrow> fs' = fs"
  by (auto simp: place_file_def Let_def split: if_splits sum.splits)

lemma place_file_placed:
  assumes "place_file t fs p = (fs', Inr (Some (cat, d)))"
  shows "\<exists>fs1 c m s.
           adds_only t fs fs1 \<and> is_dir fs1 (t @ [cat]) \<and> cat = category_of p \<and>
           d = free_destination fs1 (t @ [cat]) (stem p) (lower (path_suffix p)) (t @ [cat, name p]) 1 \<and>
           \<not> path_exists fs1 d \<and>
           lookup fs p = Some (File c m s True) \<and>
           fs' = fs1 @ [(d, File c m True True)]"
proof -
  let ?cat = "category_of p"
  let ?cdir = "t @ [?cat]"
  from assms have f: "is_file fs p"
    by (auto simp: place_file_def split: if_splits)
  with assms obtain fs1 where mk: "mkdir_exist_ok fs ?cdir = Inr fs1"
    by (auto simp: place_file_def Let_def category_of_def split: sum.splits)
  let ?d = "free_destination fs1 ?cdir (stem p) (lower (path_suffix p)) (?cdir @ [name p]) 1"
  from assms f mk have cp: "copy2 fs1 p ?d = Inr fs'" and cat: "cat = ?cat" and d: "d = ?d"
    by (auto simp: place_file_def Let_def category_of_def split: sum.splits)
  have fresh: "\<not> path_exists fs1 ?d" by (rule free_destination_fresh)
  from copy2_fresh [OF cp fresh] obtain c m s where
    src1: "lookup fs1 p = Some (File c m s True)" and fs': "fs' = fs1 @ [(?d, File c m True True)]"
    by blast
  have ao: "adds_only t fs fs1" and dir: "is_dir fs1 ?cdir"
    using mk by (auto dest: mkdir_exist_ok_Inr)
  from f obtain n where "lookup fs p = Some n"
    by (auto simp: is_file_def split: option.splits)
  with ao src1 have src: "lookup fs p = Some (File c m s True)"
    by (auto dest: adds_only_keeps)
  show ?thesis
    using ao dir cat d fresh src fs' by auto
qed

lemma free_destination_in_dir:
  "\<exists>nm. free_destination fs cdir stm ext (cdir @ [n0]) c = cdir @ [nm]"
  using free_destination_shape [OF refl, of fs cdir stm ext "cdir @ [n0]" c] by auto

lemma place_file_adds_only:
  assumes "place_file t fs p = (fs', r)"
  shows "adds_only t fs fs'"
proof (cases r)
  case (Inl e)
  with assms show ?thesis by (auto dest: place_file_error simp: adds_only_refl)
next
  case (Inr x)
  show ?thesis
  proof (cases x)
    case None
    with Inr assms show ?thesis by (auto dest: place_file_skip)
  next
    case (Some cd)
    obtain cat d where cd: "cd = (cat, d)" by (cases cd)
    from place_file_placed [of t fs p fs' cat d] assms Inr Some cd
    obtain fs1 c m s where ao: "adds_only t fs fs1"
      and d: "d = free_destination fs1 (t @ [cat]) (stem p) (lower (path_suffix p)) (t @ [cat, name p]) 1"
      and fresh: "\<not> path_exists fs1 d"
      and fs': "fs' = fs1 @ [(d, File c m True True)]"
      by auto
    from free_destination_in_dir [of fs1 "t @ [cat]" "stem p" "lower (path_suffix p)" "name p" 1] d
    obtain nm where "d = t @ [cat, nm]" by auto
    with fresh fs' have "adds_only t fs1 fs'"
      by (simp add: adds_only_new_file)
    with ao show ?thesis by (rule adds_only_trans)
  qed
qed

lemma organize_loop_adds_only:
  "organize_loop t ps (fs, moved) = (fs', res) \<Longrightarrow> adds_only t fs fs'"
proof (induction ps arbitrary: fs moved)
  case Nil
  then show ?case by (simp add: adds_only_refl)
next
  case (Cons p ps)
  obtain fs1 r where pf: "place_file t fs p = (fs1, r)" by (cases "place_file t fs p")
  then have a: "adds_only t fs fs1" by (rule place_file_adds_only)
  show ?case
  proof (cases r)
    case (Inl e)
    with pf Cons.prems have "fs' = fs1" by simp
    with a show ?thesis by simp
  next
    case (Inr x)
    have "\<exists>moved'. organize_loop t ps (fs1, moved') = (fs', res)"
      using pf Inr Cons.prems by (cases x) (auto split: prod.splits)
    then have "adds_only t fs1 fs'" using Cons.IH by blast
    with a show ?thesis by (rule adds_only_trans)
  qed
qed

lemma organize_files_by_type_adds_only:
  assumes "organize_files_by_type fs src_dir t = (fs', res)"
  shows "adds_only t fs fs'"
proof (cases "path_exists fs src_dir")
  case False
  with assms show ?thesis by (simp add: organize_files_by_type_def adds_only_refl)
next
  case True
  show ?thesis
  proof (cases "mkdir_parents fs t")
    case (Inl e)
    with True assms show ?thesis by (simp add: organize_files_by_type_def adds_only_refl)
  next
    case (Inr fs1)
    then have a: "adds_only t fs fs1" by (rule mkdir_parents_Inr)
    obtain fs2 r where l: "organize_loop t (rglob fs1 src_dir) (fs1, []) = (fs2, r)"
      by (cases "organize_loop t (rglob fs1 src_dir) (fs1, [])")
    with True Inr assms have "fs' = fs2"
      by (auto simp: organize_files_by_type_def split: sum.splits)
    with l have "adds_only t fs1 fs'" by (auto dest: organize_loop_adds_only)
    with a show ?thesis by (rule adds_only_trans)
  qed
qed

text \<open>
  Claim C8. The organizer copies: whatever the outcome of a call, every path of the file
  system before it has the same node after it, so every file keeps its bytes, its
  modification time and its flags; and every regular file that is new is two levels
  below the target directory, in a category directory.
\<close>

theorem organize_copies_and_keeps_sources:
  assumes "organize_files_by_type fs source_path target_path = (fs', res)"
  shows "(\<forall>p n. lookup fs p = Some n \<longrightarrow> lookup fs' p = Some n) \<and>
         (\<forall>p. is_file fs' p \<and> \<not> is_file fs p \<longrightarrow>
               \<not> path_exists fs p \<and> (\<exists>category nm. p = target_path @ [category, nm]))"
proof -
  have a: "adds_only target_path fs fs'"
    using assms by (rule organize_files_by_type_adds_only)
  have k: "lookup fs' p = Some n" if "lookup fs p = Some n" for p n
    using a that by (rule adds_only_keeps)
  have n: "\<not> path_exists fs p \<and> (\<exists>category nm. p = target_path @ [category, nm])"
    if "is_file fs' p \<and> \<not> is_file fs p" for p
  proof -
    from a have "lookup fs' p = lookup fs p \<or>
      (lookup fs p = None \<and> (lookup fs' p = Some Dir \<or>
         (is_file fs' p \<and> (\<exists>c nm. p = target_path @ [c, nm]))))"
      by (simp add: adds_only_def)
    with that show ?thesis
      by (auto simp: is_file_def path_exists_lookup)
  qed
  show ?thesis using k n by blast
qed

text \<open>Evaluation of the organizer on the tree of three files.\<close>

lemma lower_TXT: "lower ''.TXT'' = ''.txt''"
  by (simp add: lower_def lower_char_def char_of_def bit_0)

lemma str_nat_small: "str_nat 1 = ''1''" "str_nat (Suc 0) = ''1''" "str_nat 2 = ''2''"
  by (simp_all add: str_nat.simps char_of_def bit_0)

lemma parts_A_TXT: "suffix_of ''A.TXT'' = ''.TXT''" "stem_of ''A.TXT'' = ''A''"
  by (simp_all add: suffix_of_def stem_of_def has_suffix_def)

lemma category_txt: "find_category categories ''.txt'' = ''Documents''"
  by (simp add: categories_def)


lemmas organize_eval =
  place_file_def Let_def is_file_def is_dir_def path_exists_def lookup_def texts_fs_def
  path_suffix_def stem_def name_def parts_A_TXT lower_TXT category_txt str_nat_small
  mkdir_exist_ok_def os_mkdir_def free_destination.simps copy2_def write_file_def

lemma texts_mkdir_target:
  "mkdir_parents texts_fs [''t''] = Inr (texts_fs @ [([''t''], Dir)])"
  by (subst mkdir_parents.simps) (simp add: os_mkdir_def path_exists_def lookup_def texts_fs_def)

lemma texts_rglob:
  "rglob (texts_fs @ [([''t''], Dir)]) [''s''] =
     [[''s'', ''x''], [''s'', ''x'', ''A.TXT''], [''s'', ''y''], [''s'', ''y'', ''A.TXT''],
      [''s'', ''z''], [''s'', ''z'', ''A.TXT'']]"
  by (simp add: rglob_def is_dir_def lookup_def texts_fs_def)

lemma texts_place_1:
  "place_file [''t''] (texts_fs @ [([''t''], Dir)]) [''s'', ''x'', ''A.TXT''] =
     (texts_fs @ [([''t''], Dir), ([''t'', ''Documents''], Dir),
                  ([''t'', ''Documents'', ''A.TXT''], File ''one'' 1 True True)],
      Inr (Some (''Documents'', [''t'', ''Documents'', ''A.TXT''])))"
  by (simp add: organize_eval)

lemma texts_place_2:
  "place_file [''t'']
     (texts_fs @ [([''t''], Dir), ([''t'', ''Documents''], Dir),
                  ([''t'', ''Documents'', ''A.TXT''], File ''one'' 1 True True)])
     [''s'', ''y'', ''A.TXT''] =
     (texts_organized, Inr (Some (''Documents'', [''t'', ''Documents'', ''A_1.txt''])))"
  by (simp add: organize_eval texts_organized_def)

lemma texts_place_3:
  "place_file [''t''] texts_organized [''s'', ''z'', ''A.TXT''] = (texts_organized, Inr None)"
  by (simp add: organize_eval texts_organized_def)

lemma texts_place_dirs:
  "place_file [''t''] (texts_fs @ [([''t''], Dir)]) [''s'', ''x''] =
     (texts_fs @ [([''t''], Dir)], Inr None)"
  "place_file [''t'']
     (texts_fs @ [([''t''], Dir), ([''t'', ''Documents''], Dir),
                  ([''t'', ''Documents'', ''A.TXT''], File ''one'' 1 True True)])
     [''s'', ''y''] =
     (texts_fs @ [([''t''], Dir), ([''t'', ''Documents''], Dir),
                  ([''t'', ''Documents'', ''A.TXT''], File ''one'' 1 True True)], Inr None)"
  "place_file [''t''] texts_organized [''s'', ''z''] = (texts_organized, Inr None)"
  by (simp_all add: place_file_def is_file_def lookup_def texts_fs_def texts_organized_def)

lemma texts_run:
  "organize_files_by_type texts_fs [''s''] [''t''] = (texts_organized, Organized [(''Documents'', 2)])"
proof -
  have ex: "path_exists texts_fs [''s'']"
    by (simp add: path_exists_def lookup_def texts_fs_def)
  have "organize_loop [''t''] (rglob (texts_fs @ [([''t''], Dir)]) [''s''])
          (texts_fs @ [([''t''], Dir)], []) = (texts_organized, Inr [(''Documents'', 2)])"
    unfolding texts_rglob
    by (simp add: texts_place_1 texts_place_2 texts_place_3 texts_place_dirs)
  then show ?thesis
    by (simp add: organize_files_by_type_def ex texts_mkdir_target)
qed

theorem organize_copies_and_keeps_sources_witness:
  "organize_files_by_type texts_fs [''s''] [''t''] =
     (texts_organized, Organized [(''Documents'', 2)]) \<and>
   lookup texts_organized [''s'', ''x'', ''A.TXT''] = Some (File ''one'' 1 True True) \<and>
   lookup texts_organized [''s'', ''z'', ''A.TXT''] = Some (File ''three'' 3 True False)"
proof -
  have a: "lookup texts_fs [''s'', ''x'', ''A.TXT''] = Some (File ''one'' 1 True True)"
    and b: "lookup texts_fs [''s'', ''z'', ''A.TXT''] = Some (File ''three'' 3 True False)"
    by (simp_all add: lookup_def texts_fs_def)
  from organize_copies_and_keeps_sources [OF texts_run]
  have "\<forall>p n. lookup texts_fs p = Some n \<longrightarrow> lookup texts_organized p = Some n"
    by (rule conjunct1)
  with a b texts_run show ?thesis by blast
qed





















section \<open>The four operations on a root that is not a directory\<close>

lemma is_file_not_dir: "is_file fs d \<Longrightarrow> \<not> is_dir fs d \<and> path_exists fs d"
  by (auto simp: is_file_def is_dir_def path_exists_def split: option.splits node.splits)

lemma rglob_of_file: "is_file fs d \<Longrightarrow> rglob fs d = []"
  by (simp add: rglob_def is_file_not_dir)

lemma is_file_adds_only: "adds_only t fs fs' \<Longrightarrow> is_file fs d \<Longrightarrow> is_file fs' d"
  by (auto simp: is_file_def split: option.splits node.splits dest: adds_only_keeps)

text \<open>
  Claim C4, as the specification states it, asks each of the four operations to fail with
  an error that names the root as not being a directory. On a root that is a regular
  file, \<^verbatim>\<open>find_duplicate_files\<close> reports that it found no duplicates among 0 files,
  \<^verbatim>\<open>organize_files_by_type\<close> creates the target and reports an empty list of counts,
  and \<^verbatim>\<open>get_directory_statistics\<close> ends in the overflow of the empty aggregation.
\<close>

theorem root_not_a_directory_counterexample:
  "is_file file_root_fs [''f''] \<and>
   find_duplicate_files plain_hasher file_root_fs [''f''] 0 = NoDuplicates 0 \<and>
   organize_files_by_type file_root_fs [''f''] [''t''] =
     (file_root_fs @ [([''t''], Dir)], Organized []) \<and>
   get_directory_statistics file_root_fs [''f''] = StatsError OverflowError"
proof -
  have f: "is_file file_root_fs [''f'']"
    by (simp add: is_file_def lookup_def file_root_fs_def)
  have ex: "path_exists file_root_fs [''f'']"
    using f by (simp add: is_file_not_dir)
  have a: "find_duplicate_files plain_hasher file_root_fs [''f''] 0 = NoDuplicates 0"
    by (simp add: find_duplicate_files_def ex rglob_of_file [OF f] report_duplicates_def)
  have mk: "mkdir_parents file_root_fs [''t''] = Inr (file_root_fs @ [([''t''], Dir)])"
    by (subst mkdir_parents.simps)
       (simp add: os_mkdir_def path_exists_def lookup_def file_root_fs_def)
  have w: "rglob (file_root_fs @ [([''t''], Dir)]) [''f''] = []"
    by (simp add: rglob_def is_dir_def lookup_def file_root_fs_def)
  have b: "organize_files_by_type file_root_fs [''f''] [''t''] =
     (file_root_fs @ [([''t''], Dir)], Organized [])"
    by (simp add: organize_files_by_type_def ex mk w)
  have c: "get_directory_statistics file_root_fs [''f''] = StatsError OverflowError"
    by (simp add: get_directory_statistics_def ex rglob_of_file [OF f] format_stats_def
          initial_stats_def)
  show ?thesis using f a b c by simp
qed

text \<open>
  Claim C4, amended. For a root that exists and is a regular file, \<^verbatim>\<open>batch_rename_files\<close>
  fails with \<^verbatim>\<open>NotADirectoryError\<close>, raised by listing the root, and renames nothing.
  The other operations check only that the root exists and then walk a tree that yields
  nothing: \<^verbatim>\<open>find_duplicate_files\<close> reports no duplicates among 0 scanned files,
  \<^verbatim>\<open>organize_files_by_type\<close> creates the target directory and reports no counts (or
  reports the error of creating the target), and the aggregation of
  \<^verbatim>\<open>get_directory_statistics\<close> ends with its initial values.
\<close>

theorem root_not_a_directory:
  assumes f: "is_file fs directory"
  shows "batch_rename_files sub fs directory file_extensions =
           (fs, RenameError NotADirectoryError) \<and>
         find_duplicate_files H fs directory min_size = NoDuplicates 0 \<and>
         collect_stats fs (rglob fs directory) initial_stats = Inr initial_stats \<and>
         (\<forall>fs1. mkdir_parents fs target_path = Inr fs1 \<longrightarrow>
            organize_files_by_type fs directory target_path = (fs1, Organized [])) \<and>
         (\<forall>e. mkdir_parents fs target_path = Inl e \<longrightarrow>
            organize_files_by_type fs directory target_path = (fs, OrganizeError e))"
proof -
  have ex: "path_exists fs directory" using f by (simp add: is_file_not_dir)
  have w: "rglob fs directory = []" using f by (rule rglob_of_file)
  have "iterdir fs directory = Inl NotADirectoryError"
    using f by (auto simp: iterdir_def is_file_def split: option.splits node.splits)
  then have a: "batch_rename_files sub fs directory file_extensions =
           (fs, RenameError NotADirectoryError)"
    by (simp add: batch_rename_files_def ex)
  have b: "find_duplicate_files H fs directory min_size = NoDuplicates 0"
    by (simp add: find_duplicate_files_def ex w report_duplicates_def)
  have c: "collect_stats fs (rglob fs directory) initial_stats = Inr initial_stats"
    by (simp add: w)
  have d: "organize_files_by_type fs directory target_path = (fs1, Organized [])"
    if mk: "mkdir_parents fs target_path = Inr fs1" for fs1
  proof -
    have "adds_only target_path fs fs1" using mk by (rule mkdir_parents_Inr)
    then have "is_file fs1 directory" using f by (rule is_file_adds_only)
    then have "rglob fs1 directory = []" by (rule rglob_of_file)
    then show ?thesis by (simp add: organize_files_by_type_def ex mk)
  qed
  have e: "organize_files_by_type fs directory target_path = (fs, OrganizeError e)"
    if "mkdir_parents fs target_path = Inl e" for e
    using that by (simp add: organize_files_by_type_def ex)
  show ?thesis using a b c d e by blast
qed

theorem root_not_a_directory_witness:
  "is_file file_root_fs [''f''] \<and>
   batch_rename_files draft_to_final file_root_fs [''f''] None =
     (file_root_fs, RenameError NotADirectoryError) \<and>
   find_duplicate_files plain_hasher file_root_fs [''f''] 0 = NoDuplicates 0 \<and>
   collect_stats file_root_fs (rglob file_root_fs [''f'']) initial_stats = Inr initial_stats \<and>
   organize_files_by_type file_root_fs [''f''] [''t''] =
     (file_root_fs @ [([''t''], Dir)], Organized [])"
proof -
  have f: "is_file file_root_fs [''f'']"
    by (simp add: is_file_def lookup_def file_root_fs_def)
  have mk: "mkdir_parents file_root_fs [''t''] = Inr (file_root_fs @ [([''t''], Dir)])"
    by (subst mkdir_parents.simps)
       (simp add: os_mkdir_def path_exists_def lookup_def file_root_fs_def)
  from root_not_a_directory [OF f, of draft_to_final None plain_hasher 0 "[''t'']"]
  show ?thesis using f mk by blast
qed

end
